theory Spec2Isabelle
  imports Main "HOL-Library.Word"
begin

section \<open>MessageExtractor: data model\<close>

text \<open>
  The development embeds \<^verbatim>\<open>src/extern/xcommunication/messageextractor.cpp\<close>.
  An \<^verbatim>\<open>XsByteArray\<close> is a list of bytes. An \<^verbatim>\<open>XsMessage\<close> is opaque to the
  extractor (it is only handed from the protocol manager to the output container), so it is
  represented by its raw bytes. The C++ \<^verbatim>\<open>int\<close> values (\<^verbatim>\<open>popped\<close>, the
  retry counter, the offsets and the size of a location) are 32-bit words read as two's
  complement (\<open>sint\<close>): the additions of lines 108, 115 and 147 wrap around, as they
  do in the compiled code. An \<^verbatim>\<open>XsSize\<close> (the length of the buffer, the argument of
  \<^verbatim>\<open>pop_front\<close>) is a natural number.
\<close>

type_synonym byte = "8 word"
type_synonym int32 = "32 word"
type_synonym XsByteArray = "byte list"
type_synonym XsMessage = "byte list"

datatype XsResultValue = XRV_OK | XRV_TIMEOUTNODATA | XRV_ERROR

text \<open>
  \<^verbatim>\<open>MessageLocation\<close>: the three fields that \<^verbatim>\<open>processNewData\<close> reads. The value
  -1 of \<^verbatim>\<open>m_startPos\<close> or \<^verbatim>\<open>m_incompletePos\<close> is the sentinel for "not found".
\<close>

record MessageLocation =
  m_startPos :: int32
  m_size :: int32
  m_incompletePos :: int32

text \<open>
  \<^verbatim>\<open>IProtocolManager\<close>: the two virtual methods that the extractor calls.
  \<^verbatim>\<open>findMessage(message, raw)\<close> fills the message and returns the location, so the model
  returns both.
\<close>

record IProtocolManager =
  findMessage :: "XsByteArray \<Rightarrow> MessageLocation \<times> XsMessage"
  validateMessage :: "XsMessage \<Rightarrow> bool"

text \<open>The members of \<^verbatim>\<open>MessageExtractor\<close>; the shared pointer may be null.\<close>

record MessageExtractor =
  m_protocolManager :: "IProtocolManager option"
  m_retryTimeout :: int32
  m_buffer :: XsByteArray

definition m_maxIncompleteRetryCount :: int32 where
  "m_maxIncompleteRetryCount = 5"

text \<open>
  What a call can end in besides a status: the failure of the \<^verbatim>\<open>assert\<close> of line 99, and
  the construction of the window \<^verbatim>\<open>raw\<close> from an offset outside the buffer (line 90, where
  C++ gives no defined behaviour).
\<close>

datatype fault = AssertionFailed | WindowOutOfRange

type_synonym call_result = "fault + XsResultValue \<times> MessageExtractor \<times> XsMessage list"

section \<open>MessageExtractor: operations\<close>

text \<open>
  Modelled from the spec: \<^verbatim>\<open>XsByteArray::pop_front\<close> is declared in the xstypes library,
  which is not among the sources. The spec's \<^verbatim>\<open>dropFront(n)\<close> "permanently discards the
  first n bytes".
\<close>

definition pop_front :: "XsByteArray \<Rightarrow> nat \<Rightarrow> XsByteArray" where
  "pop_front buf count = drop count buf"

text \<open>
  The lambda \<^verbatim>\<open>retval\<close> (lines 79-86): drop the consumed bytes, then the status. The
  positive \<^verbatim>\<open>popped\<close> is converted to the \<^verbatim>\<open>XsSize\<close> that \<^verbatim>\<open>pop_front\<close> takes.
\<close>

definition retval ::
  "MessageExtractor \<Rightarrow> int32 \<Rightarrow> XsMessage list \<Rightarrow> XsResultValue \<times> MessageExtractor \<times> XsMessage list"
where
  "retval ex popped messages =
     (let ex' = (if sint popped > 0
                 then ex\<lparr>m_buffer := pop_front (m_buffer ex) (nat (sint popped))\<rparr> else ex)
      in if messages = [] then (XRV_TIMEOUTNODATA, ex', messages)
         else (XRV_OK, ex', messages))"

text \<open>The outcome of one pass through the body of \<^verbatim>\<open>for (;;)\<close>.\<close>

datatype scan_step =
  Continue MessageExtractor int32 "XsMessage list"
  | Return call_result

text \<open>Lines 140-148: reset the retry counter, consume the message, store it.\<close>

definition accept ::
  "MessageExtractor \<Rightarrow> int32 \<Rightarrow> XsMessage list \<Rightarrow> MessageLocation \<Rightarrow> XsMessage \<Rightarrow> scan_step"
where
  "accept ex popped messages location message =
     (let ex' = (if m_retryTimeout ex \<noteq> 0 then ex\<lparr>m_retryTimeout := 0\<rparr> else ex)
      in Continue ex' (popped + (m_size location + m_startPos location))
           (messages @ [message]))"

text \<open>
  Lines 90-153, one iteration. \<^verbatim>\<open>MessageLocation::isValid\<close> is declared in a header
  that is not among the sources, so it is the parameter \<open>isValid\<close>. The post-increment of
  line 108 happens on both branches of its test.
\<close>

definition iteration ::
  "(MessageLocation \<Rightarrow> bool) \<Rightarrow> IProtocolManager \<Rightarrow> MessageExtractor \<Rightarrow> int32 \<Rightarrow>
     XsMessage list \<Rightarrow> scan_step"
where
  "iteration isValid pm ex popped messages =
     (if sint popped < 0 \<or> int (length (m_buffer ex)) < sint popped
      then Return (Inl WindowOutOfRange)
      else
        let raw = drop (nat (sint popped)) (m_buffer ex);
            (location, message) = findMessage pm raw
        in
          if isValid location \<and> validateMessage pm message then
            if \<not> (m_startPos location = -1 \<or> m_incompletePos location = -1
                   \<or> sint (m_incompletePos location) < sint (m_startPos location))
            then Return (Inl AssertionFailed)
            else if sint (m_startPos location) > 0 then
              if m_incompletePos location \<noteq> -1 then
                let ex1 = ex\<lparr>m_retryTimeout := m_retryTimeout ex + 1\<rparr> in
                if sint (m_retryTimeout ex) < sint m_maxIncompleteRetryCount then
                  let popped1 = (if sint (m_incompletePos location) > 0
                                 then popped + m_incompletePos location else popped)
                  in Return (Inr (retval ex1 popped1 messages))
                else accept ex1 popped messages location message
              else accept ex popped messages location message
            else accept ex popped messages location message
          else Return (Inr (retval ex popped messages)))"

text \<open>
  The loop \<^verbatim>\<open>for (;;)\<close> of lines 88-154. Nothing in the source bounds the number of
  iterations, so the loop is a partial function: \<open>None\<close> is a loop that never returns.
\<close>

partial_function (option) scan ::
  "(MessageLocation \<Rightarrow> bool) \<Rightarrow> IProtocolManager \<Rightarrow> MessageExtractor \<Rightarrow> int32 \<Rightarrow>
     XsMessage list \<Rightarrow> call_result option"
where
  "scan isValid pm ex popped messages =
     (case iteration isValid pm ex popped messages of
        Return r \<Rightarrow> Some r
      | Continue ex' popped' messages' \<Rightarrow> scan isValid pm ex' popped' messages')"

text \<open>
  \<^verbatim>\<open>MessageExtractor::processNewData\<close> (lines 62-155). The result holds the status,
  the extractor after the call and the caller's container \<^verbatim>\<open>messages\<close> after the call.
\<close>

definition processNewData ::
  "(MessageLocation \<Rightarrow> bool) \<Rightarrow> MessageExtractor \<Rightarrow> XsByteArray \<Rightarrow> XsMessage list \<Rightarrow>
     call_result option"
where
  "processNewData isValid ex newData messages =
     (case m_protocolManager ex of
        None \<Rightarrow> Some (Inr (XRV_ERROR, ex, messages))
      | Some pm \<Rightarrow>
          let ex1 = (if newData \<noteq> [] then ex\<lparr>m_buffer := m_buffer ex @ newData\<rparr> else ex)
          in scan isValid pm ex1 0 [])"

text \<open>\<^verbatim>\<open>MessageExtractor::clearBuffer\<close> (lines 159-162).\<close>

definition clearBuffer :: "MessageExtractor \<Rightarrow> MessageExtractor" where
  "clearBuffer ex = ex\<lparr>m_buffer := []\<rparr>"

section \<open>What a call defers, consumes and extracts\<close>

text \<open>
  The iteration at this state of the loop takes the branch of lines 110-117: the window is in
  range, the protocol manager reports a validated message at a start offset above 0 behind an
  incomplete one, and the retry counter is below the maximum.
\<close>

definition defers ::
  "(MessageLocation \<Rightarrow> bool) \<Rightarrow> IProtocolManager \<Rightarrow> MessageExtractor \<Rightarrow> int32 \<Rightarrow> bool"
where
  "defers isValid pm ex popped =
     (0 \<le> sint popped \<and> sint popped \<le> int (length (m_buffer ex)) \<and>
      (case findMessage pm (drop (nat (sint popped)) (m_buffer ex)) of (location, message) \<Rightarrow>
         isValid location \<and> validateMessage pm message \<and> 0 < sint (m_startPos location) \<and>
         m_incompletePos location \<noteq> -1 \<and>
         sint (m_incompletePos location) < sint (m_startPos location) \<and>
         sint (m_retryTimeout ex) < sint m_maxIncompleteRetryCount))"

text \<open>
  The value of \<^verbatim>\<open>popped\<close> with which an iteration that returns calls \<^verbatim>\<open>retval\<close>:
  line 115 adds the incomplete offset on the deferring branch.
\<close>

definition consumed_at ::
  "(MessageLocation \<Rightarrow> bool) \<Rightarrow> IProtocolManager \<Rightarrow> MessageExtractor \<Rightarrow> int32 \<Rightarrow> int32"
where
  "consumed_at isValid pm ex popped =
     (let location = fst (findMessage pm (drop (nat (sint popped)) (m_buffer ex)))
      in if defers isValid pm ex popped \<and> sint (m_incompletePos location) > 0
         then popped + m_incompletePos location else popped)"

text \<open>
  The state of the loop (the extractor and \<^verbatim>\<open>popped\<close>) at the iteration that ends the
  call.
\<close>

partial_function (option) last_iteration ::
  "(MessageLocation \<Rightarrow> bool) \<Rightarrow> IProtocolManager \<Rightarrow> MessageExtractor \<Rightarrow> int32 \<Rightarrow>
     (MessageExtractor \<times> int32) option"
where
  "last_iteration isValid pm ex popped =
     (case iteration isValid pm ex popped [] of
        Return r \<Rightarrow> Some (ex, popped)
      | Continue ex' popped' found \<Rightarrow> last_iteration isValid pm ex' popped')"


text \<open>The extractor as \<^verbatim>\<open>processNewData\<close> hands it to the loop: the new data appended.\<close>

definition appended :: "MessageExtractor \<Rightarrow> XsByteArray \<Rightarrow> MessageExtractor" where
  "appended ex newData = (if newData \<noteq> [] then ex\<lparr>m_buffer := m_buffer ex @ newData\<rparr> else ex)"

section \<open>A caller feeding chunks\<close>

text \<open>
  The window shows an incomplete message before a validated one: what the branch of
  lines 104-133 tests, with the contract that the assertion of line 99 checks.
\<close>

definition pending :: "(MessageLocation \<Rightarrow> bool) \<Rightarrow> IProtocolManager \<Rightarrow> XsByteArray \<Rightarrow> bool" where
  "pending isValid pm raw =
     (case findMessage pm raw of (location, message) \<Rightarrow>
        isValid location \<and> validateMessage pm message \<and> 0 < sint (m_startPos location) \<and>
        m_incompletePos location \<noteq> -1 \<and>
        sint (m_incompletePos location) < sint (m_startPos location))"

text \<open>
  The window from the incomplete message on: what a deferring call leaves in the buffer.
\<close>

definition retained :: "IProtocolManager \<Rightarrow> XsByteArray \<Rightarrow> XsByteArray" where
  "retained pm raw = drop (nat (sint (m_incompletePos (fst (findMessage pm raw))))) raw"

text \<open>
  The validated message of this location ends within the window, at an offset that an
  \<^verbatim>\<open>int\<close> holds, and on the rest of the window the protocol manager finds no validated
  message.
\<close>

definition nothing_behind ::
  "(MessageLocation \<Rightarrow> bool) \<Rightarrow> IProtocolManager \<Rightarrow> XsByteArray \<Rightarrow> MessageLocation \<Rightarrow> bool"
where
  "nothing_behind isValid pm raw location =
     (let after = sint (m_startPos location) + sint (m_size location)
      in 0 \<le> after \<and> after \<le> int (length raw) \<and> after < 2 ^ 31 \<and>
         (case findMessage pm (drop (nat after) raw) of (location', message') \<Rightarrow>
            \<not> (isValid location' \<and> validateMessage pm message')))"

text \<open>
  The caller of \<^verbatim>\<open>processNewData\<close>: one call for each chunk, each with an empty
  container, as long as the calls return a status.
\<close>

fun feed ::
  "(MessageLocation \<Rightarrow> bool) \<Rightarrow> MessageExtractor \<Rightarrow> XsByteArray list \<Rightarrow>
     (XsResultValue \<times> MessageExtractor \<times> XsMessage list) list option"
where
  "feed isValid ex [] = Some []"
| "feed isValid ex (newData # rest) =
     (case processNewData isValid ex newData [] of
        Some (Inr (st, ex', out)) \<Rightarrow>
          (case feed isValid ex' rest of
             Some results \<Rightarrow> Some ((st, ex', out) # results)
           | None \<Rightarrow> None)
      | _ \<Rightarrow> None)"

text \<open>
  In each call of such a run the protocol manager's answer on the whole buffer (the
  buffer left by the earlier calls, followed by the chunk) is a validated message behind an
  incomplete one.
\<close>

fun observes ::
  "(MessageLocation \<Rightarrow> bool) \<Rightarrow> IProtocolManager \<Rightarrow> MessageExtractor \<Rightarrow> XsByteArray list \<Rightarrow> bool"
where
  "observes isValid pm ex [] = True"
| "observes isValid pm ex (newData # rest) =
     (pending isValid pm (m_buffer ex @ newData) \<and>
      (case processNewData isValid ex newData [] of
         Some (Inr (st, ex', out)) \<Rightarrow> observes isValid pm ex' rest
       | _ \<Rightarrow> True))"

section \<open>Concrete collaborators\<close>

text \<open>
  An instance of the parameter \<open>isValid\<close>: a location is valid when a start was found
  and the size is positive.
\<close>

definition isValid_pos :: "MessageLocation \<Rightarrow> bool" where
  "isValid_pos location = (0 \<le> sint (m_startPos location) \<and> 0 < sint (m_size location))"

text \<open>
  A protocol manager for a stream in which the byte 250 starts a message and the next byte
  is the length of its payload. It answers on three windows: a complete message [250, 0] at
  offset 0; one junk byte, then an incomplete message at offset 1 ([250, 3] announces three
  payload bytes that do not come) and a complete one at offset 3; and the same without the
  junk byte. On every other window it finds nothing.
\<close>

definition pm_demo :: IProtocolManager where
  "pm_demo =
     \<lparr>findMessage = (\<lambda>raw.
        if raw = [250, 0, 9, 250, 3, 250, 0]
        then (\<lparr>m_startPos = 0, m_size = 2, m_incompletePos = -1\<rparr>, [250, 0])
        else if raw = [9, 250, 3, 250, 0]
        then (\<lparr>m_startPos = 3, m_size = 2, m_incompletePos = 1\<rparr>, [250, 0])
        else if raw = [250, 3, 250, 0]
        then (\<lparr>m_startPos = 2, m_size = 2, m_incompletePos = 0\<rparr>, [250, 0])
        else (\<lparr>m_startPos = -1, m_size = 0, m_incompletePos = -1\<rparr>, [])),
      validateMessage = (\<lambda>message. message \<noteq> [])\<rparr>"

definition ex_demo :: "int32 \<Rightarrow> XsByteArray \<Rightarrow> MessageExtractor" where
  "ex_demo retry buf = \<lparr>m_protocolManager = Some pm_demo, m_retryTimeout = retry, m_buffer = buf\<rparr>"

text \<open>
  A protocol manager that finds one message behind two junk bytes, and no incomplete one.
\<close>

definition pm_junk :: IProtocolManager where
  "pm_junk =
     \<lparr>findMessage = (\<lambda>raw.
        if raw = [9, 9, 250, 0]
        then (\<lparr>m_startPos = 2, m_size = 2, m_incompletePos = -1\<rparr>, [250, 0])
        else (\<lparr>m_startPos = -1, m_size = 0, m_incompletePos = -1\<rparr>, [])),
      validateMessage = (\<lambda>message. message \<noteq> [])\<rparr>"

text \<open>
  A protocol manager for two streams of the same kind. In the first, [250, 9] at offset 0
  and [250, 20] at offset 2 are incomplete messages before the complete [250, 0] at offset 4,
  and the first incomplete one is reported; when five more bytes arrive, the message at
  offset 0 has its nine payload bytes and is not a valid one, so the incomplete message
  reported is the one at offset 2. In the second stream two incomplete messages [250, 3]
  are each followed by a complete [250, 0]. On the window [250, 4, 250, 9] it reports,
  behind the incomplete message at offset 0, a validated message of eleven bytes at offset 2,
  which the four bytes of the window do not hold.
\<close>

definition pm_stale :: IProtocolManager where
  "pm_stale =
     \<lparr>findMessage = (\<lambda>raw.
        if raw = [250, 9, 250, 20, 250, 0]
        then (\<lparr>m_startPos = 4, m_size = 2, m_incompletePos = 0\<rparr>, [250, 0])
        else if raw = [250, 9, 250, 20, 250, 0, 1, 2, 3, 4, 5]
        then (\<lparr>m_startPos = 4, m_size = 2, m_incompletePos = 2\<rparr>, [250, 0])
        else if raw = [250, 20, 250, 0, 1, 2, 3, 4, 5]
        then (\<lparr>m_startPos = 2, m_size = 2, m_incompletePos = 0\<rparr>, [250, 0])
        else if raw = [250, 3, 250, 0, 9, 250, 3, 250, 0]
        then (\<lparr>m_startPos = 2, m_size = 2, m_incompletePos = 0\<rparr>, [250, 0])
        else if raw = [9, 250, 3, 250, 0]
        then (\<lparr>m_startPos = 3, m_size = 2, m_incompletePos = 1\<rparr>, [250, 0])
        else if raw = [250, 4, 250, 9]
        then (\<lparr>m_startPos = 2, m_size = 11, m_incompletePos = 0\<rparr>, [250, 9])
        else (\<lparr>m_startPos = -1, m_size = 0, m_incompletePos = -1\<rparr>, [])),
      validateMessage = (\<lambda>message. message \<noteq> [])\<rparr>"

definition ex_stale :: "int32 \<Rightarrow> XsByteArray \<Rightarrow> MessageExtractor" where
  "ex_stale retry buf = \<lparr>m_protocolManager = Some pm_stale, m_retryTimeout = retry, m_buffer = buf\<rparr>"

text \<open>
  A protocol manager that finds the message [250, 0] on the window [250, 0], and on every
  other window reports a message whose start offset and size are both the largest
  \<^verbatim>\<open>int\<close>: their sum, computed at line 147, wraps around to -2.
\<close>

definition pm_wrap :: IProtocolManager where
  "pm_wrap =
     \<lparr>findMessage = (\<lambda>raw.
        if raw = [250, 0]
        then (\<lparr>m_startPos = 0, m_size = 2, m_incompletePos = -1\<rparr>, [250, 0])
        else (\<lparr>m_startPos = 2147483647, m_size = 2147483647, m_incompletePos = -1\<rparr>, [250])),
      validateMessage = (\<lambda>message. message \<noteq> [])\<rparr>"

text \<open>
  A protocol manager that reports offsets near the largest \<^verbatim>\<open>int\<close>: behind the
  message [250, 0], on the window [8], a validated message at start offset 2147483647 behind
  an incomplete one at offset 2147483646; and on the window [7] a validated message at
  start offset 2147483647 behind an incomplete one at offset 0.
\<close>

definition pm_far :: IProtocolManager where
  "pm_far =
     \<lparr>findMessage = (\<lambda>raw.
        if raw = [250, 0, 8]
        then (\<lparr>m_startPos = 0, m_size = 2, m_incompletePos = -1\<rparr>, [250, 0])
        else if raw = [8]
        then (\<lparr>m_startPos = 2147483647, m_size = 1, m_incompletePos = 2147483646\<rparr>, [8])
        else if raw = [7]
        then (\<lparr>m_startPos = 2147483647, m_size = 1, m_incompletePos = 0\<rparr>, [7])
        else (\<lparr>m_startPos = -1, m_size = 0, m_incompletePos = -1\<rparr>, [])),
      validateMessage = (\<lambda>message. message \<noteq> [])\<rparr>"

definition ex_far :: "int32 \<Rightarrow> XsByteArray \<Rightarrow> MessageExtractor" where
  "ex_far retry buf = \<lparr>m_protocolManager = Some pm_far, m_retryTimeout = retry, m_buffer = buf\<rparr>"

section \<open>The loop, one iteration at a time\<close>

lemma scan_Return: "iteration iv pm ex p ms = Return r \<Longrightarrow> scan iv pm ex p ms = Some r"
  by (subst scan.simps) simp

lemma scan_Continue:
  "iteration iv pm ex p ms = Continue ex' p' ms' \<Longrightarrow> scan iv pm ex p ms = scan iv pm ex' p' ms'"
  by (subst scan.simps) simp

lemma accept_eq:
  "accept ex p ms loc msg =
     Continue (ex\<lparr>m_retryTimeout := 0\<rparr>) (p + (m_size loc + m_startPos loc)) (ms @ [msg])"
  by (simp add: accept_def)

lemma retval_eq:
  "retval ex p ms =
     (if ms = [] then XRV_TIMEOUTNODATA else XRV_OK,
      ex\<lparr>m_buffer := drop (nat (sint p)) (m_buffer ex)\<rparr>, ms)"
  by (simp add: retval_def pop_front_def)

lemma sint_add_no_overflow:
  fixes a b :: int32
  assumes "- (2 ^ 31) \<le> sint a + sint b" and "sint a + sint b < 2 ^ 31"
  shows "sint (a + b) = sint a + sint b"
  using assms by (simp add: sint_word_ariths signed_take_bit_int_eq_self)

text \<open>
The three ways through an iteration whose window is in range.
\<close>

lemma iteration_stop:
  assumes "0 \<le> sint p" "sint p \<le> int (length (m_buffer ex))"
    and "findMessage pm (drop (nat (sint p)) (m_buffer ex)) = (loc, msg)"
    and "\<not> (iv loc \<and> validateMessage pm msg)"
  shows "iteration iv pm ex p ms = Return (Inr (retval ex p ms))"
  using assms by (auto simp: iteration_def)

lemma iteration_defer:
  assumes "defers iv pm ex p"
  shows "iteration iv pm ex p ms =
         Return (Inr (retval (ex\<lparr>m_retryTimeout := m_retryTimeout ex + 1\<rparr>)
                        (consumed_at iv pm ex p) ms))"
  using assms
  by (auto simp: iteration_def defers_def consumed_at_def Let_def split: prod.splits)

lemma iteration_accept:
  assumes "0 \<le> sint p" "sint p \<le> int (length (m_buffer ex))"
    and "findMessage pm (drop (nat (sint p)) (m_buffer ex)) = (loc, msg)"
    and "iv loc" "validateMessage pm msg"
    and "m_startPos loc = -1 \<or> m_incompletePos loc = -1 \<or>
         sint (m_incompletePos loc) < sint (m_startPos loc)"
    and "\<not> defers iv pm ex p"
  shows "iteration iv pm ex p ms =
         Continue (ex\<lparr>m_retryTimeout := 0\<rparr>) (p + (m_size loc + m_startPos loc)) (ms @ [msg])"
  using assms by (auto simp: iteration_def accept_eq defers_def)

lemma consumed_at_stop: "\<not> defers iv pm ex p \<Longrightarrow> consumed_at iv pm ex p = p"
  by (simp add: consumed_at_def)

text \<open>
What an iteration that continues, or returns a status, went through.
\<close>

lemma iteration_ContinueD:
  assumes "iteration iv pm ex p ms = Continue ex' p' ms'"
  shows "0 \<le> sint p \<and> sint p \<le> int (length (m_buffer ex)) \<and> ex' = ex\<lparr>m_retryTimeout := 0\<rparr> \<and>
         \<not> defers iv pm ex p \<and>
         (\<exists>loc msg. findMessage pm (drop (nat (sint p)) (m_buffer ex)) = (loc, msg) \<and> iv loc \<and>
            validateMessage pm msg \<and> p' = p + (m_size loc + m_startPos loc) \<and> ms' = ms @ [msg])"
  using assms
  by (auto simp: iteration_def accept_eq defers_def Let_def split: if_splits prod.splits)

lemma iteration_ReturnD:
  assumes "iteration iv pm ex p ms = Return (Inr r)"
  shows "0 \<le> sint p \<and> sint p \<le> int (length (m_buffer ex)) \<and>
         r = retval (if defers iv pm ex p then ex\<lparr>m_retryTimeout := m_retryTimeout ex + 1\<rparr> else ex)
               (consumed_at iv pm ex p) ms"
proof (cases "defers iv pm ex p")
  case True
  from iteration_defer [OF True, of ms] assms True show ?thesis
    by (auto simp: defers_def)
next
  case False
  then have c: "consumed_at iv pm ex p = p" by (rule consumed_at_stop)
  from assms False show ?thesis unfolding c
    by (auto simp: iteration_def accept_eq defers_def Let_def split: if_splits prod.splits)
qed

text \<open>
An iteration does not look at the container: it appends to it, or reads whether it is empty.
\<close>

lemma iteration_Continue_empty:
  assumes "iteration iv pm ex p ms = Continue ex' p' ms'"
  shows "\<exists>msg. ms' = ms @ [msg] \<and> iteration iv pm ex p [] = Continue ex' p' [msg]"
proof -
  from iteration_ContinueD [OF assms] obtain loc msg where
    r: "0 \<le> sint p" "sint p \<le> int (length (m_buffer ex))" and e: "ex' = ex\<lparr>m_retryTimeout := 0\<rparr>"
    and nd: "\<not> defers iv pm ex p"
    and f: "findMessage pm (drop (nat (sint p)) (m_buffer ex)) = (loc, msg)" "iv loc"
      "validateMessage pm msg"
    and p': "p' = p + (m_size loc + m_startPos loc)" and ms': "ms' = ms @ [msg]"
    by auto
  have a: "m_startPos loc = -1 \<or> m_incompletePos loc = -1 \<or>
         sint (m_incompletePos loc) < sint (m_startPos loc)"
    using assms r f by (auto simp: iteration_def split: if_splits)
  from iteration_accept [OF r f a nd, of "[]"] e p' ms' show ?thesis by simp
qed

lemma iteration_Return_empty:
  assumes "iteration iv pm ex p ms = Return r"
  shows "\<exists>r'. iteration iv pm ex p [] = Return r'"
  using assms
  by (auto simp: iteration_def accept_eq Let_def split: if_splits prod.splits)

lemma iteration_advances:
  assumes "iteration isValid_pos pm ex p ms = Continue ex1 p1 ms1"
    and "\<forall>loc msg. findMessage pm (drop (nat (sint p)) (m_buffer ex)) = (loc, msg) \<longrightarrow>
      isValid_pos loc \<longrightarrow> validateMessage pm msg \<longrightarrow>
        sint p + (sint (m_size loc) + sint (m_startPos loc)) < 2 ^ 31"
  shows "sint p < sint p1"
proof -
  from iteration_ContinueD [OF assms(1)] obtain loc msg where
    rng: "0 \<le> sint p" "sint p \<le> int (length (m_buffer ex))"
    and f: "findMessage pm (drop (nat (sint p)) (m_buffer ex)) = (loc, msg)" "isValid_pos loc"
      "validateMessage pm msg"
    and p1: "p1 = p + (m_size loc + m_startPos loc)" by auto
  from assms(2) f have fit: "sint p + (sint (m_size loc) + sint (m_startPos loc)) < 2 ^ 31"
    by blast
  from f(2) have pos: "0 \<le> sint (m_startPos loc)" "0 < sint (m_size loc)"
    by (simp_all add: isValid_pos_def)
  from fit pos rng
  have s1: "sint (m_size loc + m_startPos loc) = sint (m_size loc) + sint (m_startPos loc)"
    by (intro sint_add_no_overflow) auto
  with fit pos rng p1
  have "sint p1 = sint p + (sint (m_size loc) + sint (m_startPos loc))"
    by (simp add: sint_add_no_overflow)
  with pos show ?thesis by simp
qed

section \<open>Invariants of the loop\<close>


lemma scan_last:
  assumes "scan iv pm ex p ms = Some r"
  shows "\<forall>st ex' out. r = Inr (st, ex', out) \<longrightarrow>
           (\<exists>e q. last_iteration iv pm ex p = Some (e, q) \<and> m_buffer e = m_buffer ex \<and>
              m_protocolManager e = m_protocolManager ex \<and>
              0 \<le> sint q \<and> sint q \<le> int (length (m_buffer ex)) \<and>
              m_buffer ex' = drop (nat (sint (consumed_at iv pm e q))) (m_buffer ex) \<and>
              m_retryTimeout ex' =
                (if defers iv pm e q then m_retryTimeout e + 1 else m_retryTimeout e) \<and>
              (e = ex \<or> m_retryTimeout e = 0) \<and> (out \<noteq> ms \<longrightarrow> m_retryTimeout e = 0))"
    (is "?P iv pm ex p ms r")
proof (rule scan.raw_induct [where P = ?P, OF _ assms])
  fix scan' iv pm ex p ms r
  assume IH: "\<And>iv pm ex p ms r. scan' iv pm ex p ms = Some r \<Longrightarrow> ?P iv pm ex p ms r"
    and step: "(case iteration iv pm ex p ms of
                  Continue ex' popped' messages' \<Rightarrow> scan' iv pm ex' popped' messages'
                | Return r \<Rightarrow> Some r) = Some r"
  show "?P iv pm ex p ms r"
  proof (cases "iteration iv pm ex p ms")
    case (Continue ex1 p1 ms1)
    from iteration_Continue_empty [OF this] obtain msg where
      i0: "iteration iv pm ex p [] = Continue ex1 p1 [msg]" by auto
    from iteration_ContinueD [OF Continue] have e: "ex1 = ex\<lparr>m_retryTimeout := 0\<rparr>" by auto
    from Continue step have "scan' iv pm ex1 p1 ms1 = Some r" by simp
    from IH [OF this] have ih: "?P iv pm ex1 p1 ms1 r" .
    have l: "last_iteration iv pm ex p = last_iteration iv pm ex1 p1"
      using i0 by (subst last_iteration.simps) simp
    show ?thesis
    proof (intro allI impI)
      fix st ex' out assume "r = Inr (st, ex', out)"
      with ih obtain e' q where
        "last_iteration iv pm ex1 p1 = Some (e', q)" "m_buffer e' = m_buffer ex1"
        "m_protocolManager e' = m_protocolManager ex1"
        "0 \<le> sint q" "sint q \<le> int (length (m_buffer ex1))"
        "m_buffer ex' = drop (nat (sint (consumed_at iv pm e' q))) (m_buffer ex1)"
        "m_retryTimeout ex' =
                (if defers iv pm e' q then m_retryTimeout e' + 1 else m_retryTimeout e')"
        "e' = ex1 \<or> m_retryTimeout e' = 0" by blast
      with l e show "\<exists>e q. last_iteration iv pm ex p = Some (e, q) \<and> m_buffer e = m_buffer ex \<and>
              m_protocolManager e = m_protocolManager ex \<and>
              0 \<le> sint q \<and> sint q \<le> int (length (m_buffer ex)) \<and>
              m_buffer ex' = drop (nat (sint (consumed_at iv pm e q))) (m_buffer ex) \<and>
              m_retryTimeout ex' =
                (if defers iv pm e q then m_retryTimeout e + 1 else m_retryTimeout e) \<and>
              (e = ex \<or> m_retryTimeout e = 0) \<and> (out \<noteq> ms \<longrightarrow> m_retryTimeout e = 0)"
        by (intro exI [of _ e'] exI [of _ q]) auto
    qed
  next
    case (Return r')
    with step have it: "iteration iv pm ex p ms = Return r" by simp
    from iteration_Return_empty [OF it] have l: "last_iteration iv pm ex p = Some (ex, p)"
      by (subst last_iteration.simps) auto
    show ?thesis
    proof (intro allI impI)
      fix st ex' out assume "r = Inr (st, ex', out)"
      with it have "iteration iv pm ex p ms = Return (Inr (st, ex', out))" by simp
      from iteration_ReturnD [OF this] l
      show "\<exists>e q. last_iteration iv pm ex p = Some (e, q) \<and> m_buffer e = m_buffer ex \<and>
              m_protocolManager e = m_protocolManager ex \<and>
              0 \<le> sint q \<and> sint q \<le> int (length (m_buffer ex)) \<and>
              m_buffer ex' = drop (nat (sint (consumed_at iv pm e q))) (m_buffer ex) \<and>
              m_retryTimeout ex' =
                (if defers iv pm e q then m_retryTimeout e + 1 else m_retryTimeout e) \<and>
              (e = ex \<or> m_retryTimeout e = 0) \<and> (out \<noteq> ms \<longrightarrow> m_retryTimeout e = 0)"
        by (intro exI [of _ ex] exI [of _ p]) (auto simp: retval_eq)
    qed
  qed
qed

lemma scan_terminates:
  assumes len: "int (length B) < 2 ^ 31"
    and contract: "\<forall>raw loc msg. findMessage pm raw = (loc, msg) \<longrightarrow> iv loc \<longrightarrow>
      validateMessage pm msg \<longrightarrow>
        0 < sint (m_startPos loc) + sint (m_size loc) \<and>
        sint (m_startPos loc) + sint (m_size loc) \<le> int (length raw) \<and>
        (m_startPos loc = -1 \<or> m_incompletePos loc = -1 \<or>
         sint (m_incompletePos loc) < sint (m_startPos loc))"
  shows "m_buffer ex = B \<Longrightarrow> 0 \<le> sint p \<Longrightarrow> sint p \<le> int (length B) \<Longrightarrow>
         \<exists>st ex' out. scan iv pm ex p ms = Some (Inr (st, ex', out))"
proof (induction "nat (int (length B) - sint p)" arbitrary: ex p ms rule: less_induct)
  case less
  note B = \<open>m_buffer ex = B\<close>
  have rng: "0 \<le> sint p" "sint p \<le> int (length (m_buffer ex))" using less.prems by simp_all
  obtain loc msg where f: "findMessage pm (drop (nat (sint p)) (m_buffer ex)) = (loc, msg)"
    by (cases "findMessage pm (drop (nat (sint p)) (m_buffer ex))")
  show ?case
  proof (cases "iv loc \<and> validateMessage pm msg")
    case False
    with rng f have "iteration iv pm ex p ms = Return (Inr (retval ex p ms))"
      by (intro iteration_stop) auto
    then have "scan iv pm ex p ms = Some (Inr (retval ex p ms))" by (rule scan_Return)
    then show ?thesis by (cases "retval ex p ms") auto
  next
    case True
    with contract f rng have adv: "0 < sint (m_startPos loc) + sint (m_size loc)"
      and bnd: "sint (m_startPos loc) + sint (m_size loc) \<le> int (length (m_buffer ex)) - sint p"
      and asrt: "m_startPos loc = -1 \<or> m_incompletePos loc = -1 \<or>
                 sint (m_incompletePos loc) < sint (m_startPos loc)"
      by (auto dest!: spec [of _ "drop (nat (sint p)) (m_buffer ex)"])
    show ?thesis
    proof (cases "defers iv pm ex p")
      case dfr: True
      from iteration_defer [OF dfr, of ms] show ?thesis
        by (auto dest!: scan_Return simp: retval_eq)
    next
      case acc: False
      let ?p1 = "p + (m_size loc + m_startPos loc)"
      let ?ex1 = "ex\<lparr>m_retryTimeout := 0\<rparr>"
      from acc True f rng asrt
      have "iteration iv pm ex p ms = Continue ?ex1 ?p1 (ms @ [msg])"
        by (intro iteration_accept) auto
      then have eq: "scan iv pm ex p ms = scan iv pm ?ex1 ?p1 (ms @ [msg])"
        by (rule scan_Continue)
      from adv bnd rng len B
      have s1: "sint (m_size loc + m_startPos loc) = sint (m_size loc) + sint (m_startPos loc)"
        by (intro sint_add_no_overflow) auto
      with adv bnd rng len B
      have s2: "sint ?p1 = sint p + (sint (m_size loc) + sint (m_startPos loc))"
        by (intro sint_add_no_overflow [THEN trans]) auto
      from s2 adv bnd rng B
      have "nat (int (length B) - sint ?p1) < nat (int (length B) - sint p)"
        and "m_buffer ?ex1 = B" and "0 \<le> sint ?p1" and "sint ?p1 \<le> int (length B)"
        by auto
      from less.hyps [OF this] eq show ?thesis by simp
    qed
  qed
qed

lemma scan_ends:
  assumes fits: "\<forall>(p::int32) loc msg. 0 \<le> sint p \<longrightarrow> sint p \<le> int (length B) \<longrightarrow>
      findMessage pm (drop (nat (sint p)) B) = (loc, msg) \<longrightarrow> isValid_pos loc \<longrightarrow>
      validateMessage pm msg \<longrightarrow>
        sint p + (sint (m_size loc) + sint (m_startPos loc)) < 2 ^ 31"
  shows "m_buffer ex = B \<Longrightarrow> \<exists>r. scan isValid_pos pm ex p ms = Some r"
proof (induction "nat (int (length B) - sint p)" arbitrary: ex p ms rule: less_induct)
  case less
  note B = \<open>m_buffer ex = B\<close>
  show ?case
  proof (cases "iteration isValid_pos pm ex p ms")
    case (Return r)
    then show ?thesis by (auto dest: scan_Return)
  next
    case (Continue ex1 p1 ms1)
    from iteration_ContinueD [OF this] obtain loc msg where
      rng: "0 \<le> sint p" "sint p \<le> int (length (m_buffer ex))"
      and e: "ex1 = ex\<lparr>m_retryTimeout := 0\<rparr>"
      and f: "findMessage pm (drop (nat (sint p)) (m_buffer ex)) = (loc, msg)" "isValid_pos loc"
        "validateMessage pm msg"
      and p1: "p1 = p + (m_size loc + m_startPos loc)" by auto
    from rng f B have "0 \<le> sint p" "sint p \<le> int (length B)"
      "findMessage pm (drop (nat (sint p)) B) = (loc, msg)" by simp_all
    with fits f(2,3) have fit: "sint p + (sint (m_size loc) + sint (m_startPos loc)) < 2 ^ 31"
      by blast
    from f(2) have pos: "0 \<le> sint (m_startPos loc)" "0 < sint (m_size loc)"
      by (simp_all add: isValid_pos_def)
    from fit pos rng
    have s1: "sint (m_size loc + m_startPos loc) = sint (m_size loc) + sint (m_startPos loc)"
      by (intro sint_add_no_overflow) auto
    with fit pos rng p1
    have s2: "sint p1 = sint p + (sint (m_size loc) + sint (m_startPos loc))"
      by (simp add: sint_add_no_overflow)
    from Continue have eq: "scan isValid_pos pm ex p ms = scan isValid_pos pm ex1 p1 ms1"
      by (rule scan_Continue)
    show ?thesis
    proof (cases "sint p1 \<le> int (length B)")
      case True
      with s2 pos rng B
      have "nat (int (length B) - sint p1) < nat (int (length B) - sint p)" by auto
      moreover from e B have "m_buffer ex1 = B" by simp
      ultimately have "\<exists>r. scan isValid_pos pm ex1 p1 ms1 = Some r" by (rule less.hyps)
      with eq show ?thesis by simp
    next
      case False
      with e B have "iteration isValid_pos pm ex1 p1 ms1 = Return (Inl WindowOutOfRange)"
        by (simp add: iteration_def)
      with eq show ?thesis by (simp add: scan_Return)
    qed
  qed
qed

lemma scan_pm_wrap:
  assumes "scan iv pm ex p ms = Some r"
  shows "\<not> (iv = isValid_pos \<and> pm = pm_wrap \<and> m_buffer ex = [250, 0] \<and> (p = 0 \<or> p = 2))"
    (is "?P iv pm ex p ms r")
proof (rule scan.raw_induct [where P = ?P, OF _ assms])
  fix scan' iv pm ex p ms r
  assume IH: "\<And>iv pm ex p ms r. scan' iv pm ex p ms = Some r \<Longrightarrow> ?P iv pm ex p ms r"
    and step: "(case iteration iv pm ex p ms of
                  Continue ex' popped' messages' \<Rightarrow> scan' iv pm ex' popped' messages'
                | Return r \<Rightarrow> Some r) = Some r"
  show "?P iv pm ex p ms r"
  proof
    assume h: "iv = isValid_pos \<and> pm = pm_wrap \<and> m_buffer ex = [250, 0] \<and> (p = 0 \<or> p = 2)"
    then have "p = 0 \<or> p = 2" by simp
    then show False
    proof
      assume p: "p = 0"
      with h have "iteration iv pm ex p ms = Continue (ex\<lparr>m_retryTimeout := 0\<rparr>) 2 (ms @ [[250, 0]])"
        by (simp add: iteration_def accept_eq isValid_pos_def pm_wrap_def)
      with step have "scan' iv pm (ex\<lparr>m_retryTimeout := 0\<rparr>) 2 (ms @ [[250, 0]]) = Some r" by simp
      from IH [OF this] h show False by simp
    next
      assume p: "p = 2"
      with h have "iteration iv pm ex p ms = Continue (ex\<lparr>m_retryTimeout := 0\<rparr>) 0 (ms @ [[250]])"
        by (simp add: iteration_def accept_eq isValid_pos_def pm_wrap_def)
      with step have "scan' iv pm (ex\<lparr>m_retryTimeout := 0\<rparr>) 0 (ms @ [[250]]) = Some r" by simp
      from IH [OF this] h show False by simp
    qed
  qed
qed

section \<open>Whole calls\<close>

lemma processNewData_scan:
  "m_protocolManager ex = Some pm \<Longrightarrow>
   processNewData iv ex nd ms = scan iv pm (appended ex nd) 0 []"
  by (simp add: processNewData_def appended_def)

lemma appended_simps [simp]:
  "m_buffer (appended ex nd) = m_buffer ex @ nd"
  "m_retryTimeout (appended ex nd) = m_retryTimeout ex"
  "m_protocolManager (appended ex nd) = m_protocolManager ex"
  by (simp_all add: appended_def)

lemma appended_update:
  "(appended ex nd)\<lparr>m_retryTimeout := r, m_buffer := b\<rparr> = ex\<lparr>m_retryTimeout := r, m_buffer := b\<rparr>"
  "(appended ex nd)\<lparr>m_retryTimeout := r\<rparr> = ex\<lparr>m_buffer := m_buffer ex @ nd, m_retryTimeout := r\<rparr>"
  by (simp_all add: appended_def)

lemma processNewData_clears:
  "m_protocolManager ex \<noteq> None \<Longrightarrow>
   processNewData isValid ex newData messages = processNewData isValid ex newData []"
  by (auto simp: processNewData_def)

lemma call_defers:
  assumes "m_protocolManager ex = Some pm" and "pending iv pm (m_buffer ex @ nd)"
    and "sint (m_retryTimeout ex) < sint m_maxIncompleteRetryCount"
  shows "processNewData iv ex nd ms =
           Some (Inr (XRV_TIMEOUTNODATA,
                      ex\<lparr>m_retryTimeout := m_retryTimeout ex + 1,
                         m_buffer := retained pm (m_buffer ex @ nd)\<rparr>, []))"
proof -
  let ?ex1 = "appended ex nd"
  obtain loc msg where f: "findMessage pm (m_buffer ex @ nd) = (loc, msg)"
    by (cases "findMessage pm (m_buffer ex @ nd)")
  with assms(2,3) have d: "defers iv pm ?ex1 0"
    by (auto simp: pending_def defers_def)
  have "sint (consumed_at iv pm ?ex1 0) = sint (m_incompletePos loc) \<or>
        (sint (consumed_at iv pm ?ex1 0) = 0 \<and> sint (m_incompletePos loc) \<le> 0)"
    using f d by (auto simp: consumed_at_def)
  then have c: "drop (nat (sint (consumed_at iv pm ?ex1 0))) (m_buffer ex @ nd) =
      retained pm (m_buffer ex @ nd)"
    using f by (auto simp: retained_def)
  from iteration_defer [OF d, of "[]"] c
  have "scan iv pm ?ex1 0 [] =
      Some (Inr (XRV_TIMEOUTNODATA,
                 ex\<lparr>m_retryTimeout := m_retryTimeout ex + 1,
                    m_buffer := retained pm (m_buffer ex @ nd)\<rparr>, []))"
    by (simp add: scan_Return retval_eq appended_update)
  with assms(1) show ?thesis by (simp add: processNewData_scan)
qed

lemma call_exhausts:
  assumes "m_protocolManager ex = Some pm" and "pending iv pm (m_buffer ex @ nd)"
    and "sint m_maxIncompleteRetryCount \<le> sint (m_retryTimeout ex)"
    and f: "findMessage pm (m_buffer ex @ nd) = (loc, msg)"
  shows "processNewData iv ex nd ms =
           scan iv pm (ex\<lparr>m_buffer := m_buffer ex @ nd, m_retryTimeout := 0\<rparr>)
             (m_startPos loc + m_size loc) [msg]"
proof -
  let ?ex1 = "appended ex nd"
  from f assms(2) have p: "iv loc" "validateMessage pm msg" "0 < sint (m_startPos loc)"
    "m_incompletePos loc \<noteq> -1" "sint (m_incompletePos loc) < sint (m_startPos loc)"
    by (auto simp: pending_def)
  have nd: "\<not> defers iv pm ?ex1 0" using assms(3) by (auto simp: defers_def)
  have "iteration iv pm ?ex1 0 [] =
         Continue (?ex1\<lparr>m_retryTimeout := 0\<rparr>) (0 + (m_size loc + m_startPos loc)) ([] @ [msg])"
    using f p nd by (intro iteration_accept) auto
  then have "scan iv pm ?ex1 0 [] =
      scan iv pm (?ex1\<lparr>m_retryTimeout := 0\<rparr>) (0 + (m_size loc + m_startPos loc)) ([] @ [msg])"
    by (rule scan_Continue)
  with assms(1) show ?thesis by (simp add: processNewData_scan appended_update add.commute)
qed

lemma call_discards:
  assumes "m_protocolManager ex = Some pm" and "pending iv pm (m_buffer ex @ nd)"
    and "sint m_maxIncompleteRetryCount \<le> sint (m_retryTimeout ex)"
    and f: "findMessage pm (m_buffer ex @ nd) = (loc, msg)"
    and nb: "nothing_behind iv pm (m_buffer ex @ nd) loc"
  shows "processNewData iv ex nd ms =
           Some (Inr (XRV_OK,
                      ex\<lparr>m_buffer := drop (nat (sint (m_startPos loc) + sint (m_size loc)))
                                        (m_buffer ex @ nd),
                         m_retryTimeout := 0\<rparr>, [msg]))"
proof -
  let ?e = "ex\<lparr>m_buffer := m_buffer ex @ nd, m_retryTimeout := 0\<rparr>"
  let ?q = "m_startPos loc + m_size loc"
  let ?a = "sint (m_startPos loc) + sint (m_size loc)"
  from nb have a: "0 \<le> ?a" "?a \<le> int (length (m_buffer ex @ nd))" "?a < 2 ^ 31"
    by (simp_all add: nothing_behind_def Let_def)
  then have s: "sint ?q = ?a" by (intro sint_add_no_overflow) auto
  obtain l m where f2: "findMessage pm (drop (nat ?a) (m_buffer ex @ nd)) = (l, m)"
    by (cases "findMessage pm (drop (nat ?a) (m_buffer ex @ nd))")
  with nb have nv: "\<not> (iv l \<and> validateMessage pm m)"
    by (simp add: nothing_behind_def Let_def)
  have "iteration iv pm ?e ?q [msg] = Return (Inr (retval ?e ?q [msg]))"
    using a s f2 nv by (intro iteration_stop [where loc = l and msg = m]) auto
  then have "scan iv pm ?e ?q [msg] = Some (Inr (retval ?e ?q [msg]))" by (rule scan_Return)
  with call_exhausts [OF assms(1-4), of ms] s show ?thesis by (simp add: retval_eq)
qed

lemma defer_step:
  assumes "m_protocolManager e = Some pm" and "m_retryTimeout e = k"
    and "sint k < sint m_maxIncompleteRetryCount" and "observes iv pm e (c # cs)"
  shows "\<exists>e'. processNewData iv e c [] = Some (Inr (XRV_TIMEOUTNODATA, e', [])) \<and>
           m_protocolManager e' = Some pm \<and> m_retryTimeout e' = k + 1 \<and>
           m_buffer e' = retained pm (m_buffer e @ c) \<and> observes iv pm e' cs"
proof -
  let ?e' = "e\<lparr>m_retryTimeout := m_retryTimeout e + 1, m_buffer := retained pm (m_buffer e @ c)\<rparr>"
  from assms(4) have p: "pending iv pm (m_buffer e @ c)" by simp
  from assms(2,3) have "sint (m_retryTimeout e) < sint m_maxIncompleteRetryCount" by simp
  from call_defers [OF assms(1) p this]
  have call: "processNewData iv e c [] = Some (Inr (XRV_TIMEOUTNODATA, ?e', []))" .
  with assms(4) have "observes iv pm ?e' cs" by simp
  with call assms(1,2) show ?thesis by (intro exI [of _ ?e']) simp
qed

lemma pm_demo_contract:
  "\<forall>raw location message. findMessage pm_demo raw = (location, message) \<longrightarrow>
      isValid_pos location \<longrightarrow> validateMessage pm_demo message \<longrightarrow>
        0 < sint (m_startPos location) + sint (m_size location) \<and>
        sint (m_startPos location) + sint (m_size location) \<le> int (length raw) \<and>
        (m_startPos location = -1 \<or> m_incompletePos location = -1 \<or>
         sint (m_incompletePos location) < sint (m_startPos location))"
  by (auto simp: pm_demo_def isValid_pos_def split: if_splits)

lemma processNewData_returns:
  assumes pm: "m_protocolManager ex = Some pm"
    and len: "int (length (m_buffer ex @ newData)) < 2 ^ 31"
    and contract: "\<forall>raw location message. findMessage pm raw = (location, message) \<longrightarrow>
          isValid location \<longrightarrow> validateMessage pm message \<longrightarrow>
            0 < sint (m_startPos location) + sint (m_size location) \<and>
            sint (m_startPos location) + sint (m_size location) \<le> int (length raw) \<and>
            (m_startPos location = -1 \<or> m_incompletePos location = -1 \<or>
             sint (m_incompletePos location) < sint (m_startPos location))"
  shows "\<exists>st ex' out. processNewData isValid ex newData messages = Some (Inr (st, ex', out))"
proof -
  have "\<exists>s e found. scan isValid pm (appended ex newData) 0 [] = Some (Inr (s, e, found))"
    by (rule scan_terminates [OF len contract]) simp_all
  with pm show ?thesis by (simp add: processNewData_scan)
qed

lemmas demo_defs = ex_demo_def pm_demo_def isValid_pos_def m_maxIncompleteRetryCount_def

lemmas eval_defs = processNewData_def scan.simps iteration_def accept_eq retval_eq demo_defs Let_def

lemmas stale_defs = processNewData_def scan.simps iteration_def accept_eq retval_eq
  ex_stale_def pm_stale_def isValid_pos_def m_maxIncompleteRetryCount_def Let_def

lemmas far_defs = processNewData_def scan.simps iteration_def accept_eq retval_eq
  ex_far_def pm_far_def isValid_pos_def m_maxIncompleteRetryCount_def Let_def

section \<open>Claims\<close>

text \<open>
  C1 (retry bound), as stated, fails in three ways. The retry counter belongs to the
  extractor, not to the incomplete message: in the first run, started on a new extractor,
  three calls defer on the incomplete message at offset 0; the fourth call brings the bytes
  that settle it, the protocol manager reports the incomplete message at offset 2 for the
  first time, and that one is given up in the sixth call, after two deferrals. And the
  counter is not 0 after the call that gives up: in the second run the sixth call accepts
  the message, then defers on the next incomplete one and returns with the counter at 1.
  And the call that gives up need not return: in the third run the validated message is
  reported to end behind the buffer, and the sixth call ends at a window out of range.
\<close>

theorem retry_bound_counterexample:
  "feed isValid_pos (ex_stale 0 [])
       [[250, 9, 250, 20, 250, 0], [], [], [1, 2, 3, 4, 5], [], []] =
     Some [(XRV_TIMEOUTNODATA, ex_stale 1 [250, 9, 250, 20, 250, 0], []),
           (XRV_TIMEOUTNODATA, ex_stale 2 [250, 9, 250, 20, 250, 0], []),
           (XRV_TIMEOUTNODATA, ex_stale 3 [250, 9, 250, 20, 250, 0], []),
           (XRV_TIMEOUTNODATA, ex_stale 4 [250, 20, 250, 0, 1, 2, 3, 4, 5], []),
           (XRV_TIMEOUTNODATA, ex_stale 5 [250, 20, 250, 0, 1, 2, 3, 4, 5], []),
           (XRV_OK, ex_stale 0 [1, 2, 3, 4, 5], [[250, 0]])] \<and>
   feed isValid_pos (ex_stale 0 [250, 3, 250, 0, 9, 250, 3, 250, 0]) [[], [], [], [], [], []] =
     Some [(XRV_TIMEOUTNODATA, ex_stale 1 [250, 3, 250, 0, 9, 250, 3, 250, 0], []),
           (XRV_TIMEOUTNODATA, ex_stale 2 [250, 3, 250, 0, 9, 250, 3, 250, 0], []),
           (XRV_TIMEOUTNODATA, ex_stale 3 [250, 3, 250, 0, 9, 250, 3, 250, 0], []),
           (XRV_TIMEOUTNODATA, ex_stale 4 [250, 3, 250, 0, 9, 250, 3, 250, 0], []),
           (XRV_TIMEOUTNODATA, ex_stale 5 [250, 3, 250, 0, 9, 250, 3, 250, 0], []),
           (XRV_OK, ex_stale 1 [250, 3, 250, 0], [[250, 0]])] \<and>
   feed isValid_pos (ex_stale 0 [250, 4, 250, 9]) [[], [], [], [], []] =
     Some [(XRV_TIMEOUTNODATA, ex_stale 1 [250, 4, 250, 9], []),
           (XRV_TIMEOUTNODATA, ex_stale 2 [250, 4, 250, 9], []),
           (XRV_TIMEOUTNODATA, ex_stale 3 [250, 4, 250, 9], []),
           (XRV_TIMEOUTNODATA, ex_stale 4 [250, 4, 250, 9], []),
           (XRV_TIMEOUTNODATA, ex_stale 5 [250, 4, 250, 9], [])] \<and>
   processNewData isValid_pos (ex_stale 5 [250, 4, 250, 9]) [] [] = Some (Inl WindowOutOfRange)"
  by (simp add: stale_defs)

text \<open>
  C1, amended. A run of six calls starts with the retry counter at 0, and in each call the
  protocol manager's answer on the whole buffer is a validated message at a start offset
  above 0 behind an incomplete one. Then calls 1 to 5 return \<open>XRV_TIMEOUTNODATA\<close> with
  no message, leave the retry counter at 1, 2, 3, 4, 5, and keep the buffer from the
  incomplete message on. Call 6 does not defer: its first iteration resets the counter to 0,
  counts the start offset and the size of the message as consumed, accepts the message, and
  the call goes on scanning from there. When the message ends within the buffer and nothing
  valid follows it there, call 6 returns \<open>XRV_OK\<close> with this one message, the bytes up to the end of the
  message dropped, and the counter at 0.
\<close>

theorem retry_bound:
  assumes "m_protocolManager ex = Some pm" and "m_retryTimeout ex = 0"
    and "observes isValid pm ex [c1, c2, c3, c4, c5, c6]"
  shows "\<exists>e1 e2 e3 e4 e5 location message.
     feed isValid ex [c1, c2, c3, c4, c5] =
       Some [(XRV_TIMEOUTNODATA, e1, []), (XRV_TIMEOUTNODATA, e2, []), (XRV_TIMEOUTNODATA, e3, []),
             (XRV_TIMEOUTNODATA, e4, []), (XRV_TIMEOUTNODATA, e5, [])] \<and>
     map m_retryTimeout [e1, e2, e3, e4, e5] = [1, 2, 3, 4, 5] \<and>
     map m_buffer [e1, e2, e3, e4, e5] =
       [retained pm (m_buffer ex @ c1), retained pm (m_buffer e1 @ c2),
        retained pm (m_buffer e2 @ c3), retained pm (m_buffer e3 @ c4),
        retained pm (m_buffer e4 @ c5)] \<and>
     findMessage pm (m_buffer e5 @ c6) = (location, message) \<and>
     0 < sint (m_startPos location) \<and>
     processNewData isValid e5 c6 messages =
       scan isValid pm (e5\<lparr>m_buffer := m_buffer e5 @ c6, m_retryTimeout := 0\<rparr>)
         (m_startPos location + m_size location) [message] \<and>
     (nothing_behind isValid pm (m_buffer e5 @ c6) location \<longrightarrow>
      processNewData isValid e5 c6 messages =
        Some (Inr (XRV_OK,
                   e5\<lparr>m_buffer := drop (nat (sint (m_startPos location) + sint (m_size location)))
                                      (m_buffer e5 @ c6),
                      m_retryTimeout := 0\<rparr>,
                   [message])))"
proof -
  have lt: "sint (0::int32) < sint m_maxIncompleteRetryCount"
    "sint (0 + 1 :: int32) < sint m_maxIncompleteRetryCount"
    "sint (0 + 1 + 1 :: int32) < sint m_maxIncompleteRetryCount"
    "sint (0 + 1 + 1 + 1 :: int32) < sint m_maxIncompleteRetryCount"
    "sint (0 + 1 + 1 + 1 + 1 :: int32) < sint m_maxIncompleteRetryCount"
    by (simp_all add: m_maxIncompleteRetryCount_def)
  from defer_step [OF assms(1,2) lt(1) assms(3)] obtain e1 where
    k1: "processNewData isValid ex c1 [] = Some (Inr (XRV_TIMEOUTNODATA, e1, []))"
    and s1: "m_protocolManager e1 = Some pm" "m_retryTimeout e1 = 0 + 1"
    and b1: "m_buffer e1 = retained pm (m_buffer ex @ c1)"
    and o1: "observes isValid pm e1 [c2, c3, c4, c5, c6]" by auto
  from defer_step [OF s1 lt(2) o1] obtain e2 where
    k2: "processNewData isValid e1 c2 [] = Some (Inr (XRV_TIMEOUTNODATA, e2, []))"
    and s2: "m_protocolManager e2 = Some pm" "m_retryTimeout e2 = 0 + 1 + 1"
    and b2: "m_buffer e2 = retained pm (m_buffer e1 @ c2)"
    and o2: "observes isValid pm e2 [c3, c4, c5, c6]" by auto
  from defer_step [OF s2 lt(3) o2] obtain e3 where
    k3: "processNewData isValid e2 c3 [] = Some (Inr (XRV_TIMEOUTNODATA, e3, []))"
    and s3: "m_protocolManager e3 = Some pm" "m_retryTimeout e3 = 0 + 1 + 1 + 1"
    and b3: "m_buffer e3 = retained pm (m_buffer e2 @ c3)"
    and o3: "observes isValid pm e3 [c4, c5, c6]" by auto
  from defer_step [OF s3 lt(4) o3] obtain e4 where
    k4: "processNewData isValid e3 c4 [] = Some (Inr (XRV_TIMEOUTNODATA, e4, []))"
    and s4: "m_protocolManager e4 = Some pm" "m_retryTimeout e4 = 0 + 1 + 1 + 1 + 1"
    and b4: "m_buffer e4 = retained pm (m_buffer e3 @ c4)"
    and o4: "observes isValid pm e4 [c5, c6]" by auto
  from defer_step [OF s4 lt(5) o4] obtain e5 where
    k5: "processNewData isValid e4 c5 [] = Some (Inr (XRV_TIMEOUTNODATA, e5, []))"
    and s5: "m_protocolManager e5 = Some pm" "m_retryTimeout e5 = 0 + 1 + 1 + 1 + 1 + 1"
    and b5: "m_buffer e5 = retained pm (m_buffer e4 @ c5)"
    and o5: "observes isValid pm e5 [c6]" by auto
  obtain location message where f: "findMessage pm (m_buffer e5 @ c6) = (location, message)"
    by (cases "findMessage pm (m_buffer e5 @ c6)")
  from o5 have p6: "pending isValid pm (m_buffer e5 @ c6)" by simp
  with f have sp: "0 < sint (m_startPos location)" by (simp add: pending_def)
  from s5 have mx: "sint m_maxIncompleteRetryCount \<le> sint (m_retryTimeout e5)"
    by (simp add: m_maxIncompleteRetryCount_def)
  from call_exhausts [OF s5(1) p6 mx f]
  have k6: "processNewData isValid e5 c6 messages =
       scan isValid pm (e5\<lparr>m_buffer := m_buffer e5 @ c6, m_retryTimeout := 0\<rparr>)
         (m_startPos location + m_size location) [message]" .
  have k7: "nothing_behind isValid pm (m_buffer e5 @ c6) location \<longrightarrow>
      processNewData isValid e5 c6 messages =
        Some (Inr (XRV_OK,
                   e5\<lparr>m_buffer := drop (nat (sint (m_startPos location) + sint (m_size location)))
                                      (m_buffer e5 @ c6),
                      m_retryTimeout := 0\<rparr>,
                   [message]))"
    using call_discards [OF s5(1) p6 mx f] by blast
  have fd: "feed isValid ex [c1, c2, c3, c4, c5] =
       Some [(XRV_TIMEOUTNODATA, e1, []), (XRV_TIMEOUTNODATA, e2, []), (XRV_TIMEOUTNODATA, e3, []),
             (XRV_TIMEOUTNODATA, e4, []), (XRV_TIMEOUTNODATA, e5, [])]"
    by (simp add: k1 k2 k3 k4 k5)
  have rt: "map m_retryTimeout [e1, e2, e3, e4, e5] = [1, 2, 3, 4, 5]"
    by (simp add: s1 s2 s3 s4 s5)
  have bf: "map m_buffer [e1, e2, e3, e4, e5] =
       [retained pm (m_buffer ex @ c1), retained pm (m_buffer e1 @ c2),
        retained pm (m_buffer e2 @ c3), retained pm (m_buffer e3 @ c4),
        retained pm (m_buffer e4 @ c5)]"
    by (simp add: b1 b2 b3 b4 b5)
  show ?thesis
    by (intro exI [of _ e1] exI [of _ e2] exI [of _ e3] exI [of _ e4] exI [of _ e5]
        exI [of _ location] exI [of _ message] conjI fd rt bf f sp k6 k7)
qed

theorem retry_bound_witness:
  "observes isValid_pos pm_demo (ex_demo 0 [9, 250, 3, 250, 0]) [[], [], [], [], [], []] \<and>
   nothing_behind isValid_pos pm_demo [250, 3, 250, 0]
     \<lparr>m_startPos = 2, m_size = 2, m_incompletePos = 0\<rparr> \<and>
   feed isValid_pos (ex_demo 0 [9, 250, 3, 250, 0]) [[], [], [], [], []] =
     Some [(XRV_TIMEOUTNODATA, ex_demo 1 [250, 3, 250, 0], []),
           (XRV_TIMEOUTNODATA, ex_demo 2 [250, 3, 250, 0], []),
           (XRV_TIMEOUTNODATA, ex_demo 3 [250, 3, 250, 0], []),
           (XRV_TIMEOUTNODATA, ex_demo 4 [250, 3, 250, 0], []),
           (XRV_TIMEOUTNODATA, ex_demo 5 [250, 3, 250, 0], [])] \<and>
   processNewData isValid_pos (ex_demo 5 [250, 3, 250, 0]) [] [] =
     Some (Inr (XRV_OK, ex_demo 0 [], [[250, 0]]))"
proof -
  have pm: "m_protocolManager (ex_demo 0 [9, 250, 3, 250, 0]) = Some pm_demo"
    and r0: "m_retryTimeout (ex_demo 0 [9, 250, 3, 250, 0]) = 0"
    by (simp_all add: ex_demo_def)
  have obs: "observes isValid_pos pm_demo (ex_demo 0 [9, 250, 3, 250, 0]) [[], [], [], [], [], []]"
    by (simp add: eval_defs pending_def)
  have nb: "nothing_behind isValid_pos pm_demo [250, 3, 250, 0]
     \<lparr>m_startPos = 2, m_size = 2, m_incompletePos = 0\<rparr>"
    by (simp add: nothing_behind_def demo_defs)
  have fd: "feed isValid_pos (ex_demo 0 [9, 250, 3, 250, 0]) [[], [], [], [], []] =
     Some [(XRV_TIMEOUTNODATA, ex_demo 1 [250, 3, 250, 0], []),
           (XRV_TIMEOUTNODATA, ex_demo 2 [250, 3, 250, 0], []),
           (XRV_TIMEOUTNODATA, ex_demo 3 [250, 3, 250, 0], []),
           (XRV_TIMEOUTNODATA, ex_demo 4 [250, 3, 250, 0], []),
           (XRV_TIMEOUTNODATA, ex_demo 5 [250, 3, 250, 0], [])]"
    by (simp add: eval_defs)
  from retry_bound [OF pm r0 obs, of "[]"] obtain e5 location message where
    "\<exists>e1 e2 e3 e4. feed isValid_pos (ex_demo 0 [9, 250, 3, 250, 0]) [[], [], [], [], []] =
       Some [(XRV_TIMEOUTNODATA, e1, []), (XRV_TIMEOUTNODATA, e2, []), (XRV_TIMEOUTNODATA, e3, []),
             (XRV_TIMEOUTNODATA, e4, []), (XRV_TIMEOUTNODATA, e5, [])]"
    and f: "findMessage pm_demo (m_buffer e5 @ []) = (location, message)"
    and k7: "nothing_behind isValid_pos pm_demo (m_buffer e5 @ []) location \<longrightarrow>
      processNewData isValid_pos e5 [] [] =
        Some (Inr (XRV_OK,
                   e5\<lparr>m_buffer := drop (nat (sint (m_startPos location) + sint (m_size location)))
                                      (m_buffer e5 @ []),
                      m_retryTimeout := 0\<rparr>,
                   [message]))"
    by blast
  with fd have e5: "e5 = ex_demo 5 [250, 3, 250, 0]" by auto
  with f have l: "location = \<lparr>m_startPos = 2, m_size = 2, m_incompletePos = 0\<rparr>"
    "message = [250, 0]"
    by (auto simp: demo_defs)
  from k7 nb e5 l have "processNewData isValid_pos (ex_demo 5 [250, 3, 250, 0]) [] [] =
     Some (Inr (XRV_OK, ex_demo 0 [], [[250, 0]]))"
    by (simp add: ex_demo_def)
  with obs nb fd show ?thesis by simp
qed




text \<open>
  C3 (deferral branch), as stated, fails where line 115 overflows: at the consumed offset
  2 the protocol manager reports the incomplete offset 2147483646, the sum wraps around to
  -2147483648, \<^verbatim>\<open>retval\<close> drops nothing, and the buffer keeps also the two bytes of the
  message that the call has extracted.
\<close>

theorem deferral_branch_counterexample:
  "processNewData isValid_pos (ex_far 0 [250, 0, 8]) [] []
     = Some (Inr (XRV_OK, ex_far 1 [250, 0, 8], [[250, 0]])) \<and>
   iteration isValid_pos pm_far (ex_far 0 [250, 0, 8]) 0 []
     = Continue (ex_far 0 [250, 0, 8]) 2 [[250, 0]] \<and>
   findMessage pm_far (drop (nat (sint (2 :: int32))) (m_buffer (ex_far 0 [250, 0, 8])))
     = (\<lparr>m_startPos = 2147483647, m_size = 1, m_incompletePos = 2147483646\<rparr>, [8]) \<and>
   scan isValid_pos pm_far (ex_far 0 [250, 0, 8]) 2 [[250, 0]]
     = Some (Inr (XRV_OK, ex_far 1 [250, 0, 8], [[250, 0]])) \<and>
   m_buffer (ex_far 1 [250, 0, 8])
     \<noteq> drop (nat (sint (2147483646 :: int32))) (drop (nat (sint (2 :: int32)))
          (m_buffer (ex_far 0 [250, 0, 8]))) \<and>
   sint (2 + 2147483646 :: int32) = - 2147483648"
  by (simp add: far_defs)

text \<open>
  C3, amended. In an iteration where the protocol manager reports a validated message at a
  start offset above 0 behind an incomplete one, the retry counter is below
  \<open>m_maxIncompleteRetryCount\<close>, and the sum of line 115 is an \<^verbatim>\<open>int\<close>, the loop
  returns at once: the buffer keeps the window from the incomplete message on (only the
  bytes before it are dropped, with those consumed earlier in the call), the counter is
  incremented, and the status is \<open>XRV_TIMEOUTNODATA\<close> when no message was collected,
  else \<open>XRV_OK\<close>.
\<close>

theorem deferral_branch:
  assumes "0 \<le> sint popped" "sint popped \<le> int (length (m_buffer ex))"
    and "findMessage pm (drop (nat (sint popped)) (m_buffer ex)) = (location, message)"
    and "isValid location" "validateMessage pm message"
    and "0 < sint (m_startPos location)" "m_incompletePos location \<noteq> -1"
    and "sint (m_incompletePos location) < sint (m_startPos location)"
    and "sint (m_retryTimeout ex) < sint m_maxIncompleteRetryCount"
    and "sint popped + sint (m_incompletePos location) < 2 ^ 31"
  shows "scan isValid pm ex popped messages =
         Some (Inr (if messages = [] then XRV_TIMEOUTNODATA else XRV_OK,
                    ex\<lparr>m_retryTimeout := m_retryTimeout ex + 1,
                       m_buffer := drop (nat (sint (m_incompletePos location)))
                                     (drop (nat (sint popped)) (m_buffer ex))\<rparr>,
                    messages)) \<and>
         sint (m_retryTimeout ex + 1) = sint (m_retryTimeout ex) + 1"
proof
  from assms have d: "defers isValid pm ex popped" by (simp add: defers_def)
  have "nat (sint (consumed_at isValid pm ex popped)) =
        nat (sint (m_incompletePos location)) + nat (sint popped)"
  proof (cases "0 < sint (m_incompletePos location)")
    case True
    with assms(1,10)
    have "sint (popped + m_incompletePos location) = sint popped + sint (m_incompletePos location)"
      by (intro sint_add_no_overflow) auto
    with True d assms(1,3) show ?thesis by (simp add: consumed_at_def nat_add_distrib)
  next
    case False
    with d assms(3) show ?thesis by (simp add: consumed_at_def)
  qed
  with iteration_defer [OF d, of messages]
  show "scan isValid pm ex popped messages =
         Some (Inr (if messages = [] then XRV_TIMEOUTNODATA else XRV_OK,
                    ex\<lparr>m_retryTimeout := m_retryTimeout ex + 1,
                       m_buffer := drop (nat (sint (m_incompletePos location)))
                                     (drop (nat (sint popped)) (m_buffer ex))\<rparr>,
                    messages))"
    by (simp add: scan_Return retval_eq)
  from assms(9) have "sint (m_retryTimeout ex) + sint (1 :: int32) < 2 ^ 31"
    by (simp add: m_maxIncompleteRetryCount_def)
  moreover have "- (2 ^ 31) \<le> sint (m_retryTimeout ex) + sint (1 :: int32)"
    using sint_ge [of "m_retryTimeout ex"] by simp
  ultimately show "sint (m_retryTimeout ex + 1) = sint (m_retryTimeout ex) + 1"
    by (simp add: sint_add_no_overflow)
qed

theorem deferral_branch_witness:
  "scan isValid_pos pm_demo (ex_demo 0 [250, 0, 9, 250, 3, 250, 0]) 2 [[250, 0]] =
     Some (Inr (XRV_OK, ex_demo 1 [250, 3, 250, 0], [[250, 0]]))"
  using deferral_branch [of 2 "ex_demo 0 [250, 0, 9, 250, 3, 250, 0]" pm_demo
      "\<lparr>m_startPos = 3, m_size = 2, m_incompletePos = 1\<rparr>" "[250, 0]" isValid_pos "[[250, 0]]"]
  by (simp add: demo_defs)

text \<open>
  C4 (exhaustion branch), as stated, fails where line 147 overflows: five calls defer on
  a validated message reported at start offset 2147483647 with size 1; in the sixth call
  the consumed offset does not advance by their sum but becomes -2147483648, and the call
  ends at a window out of range.
\<close>

theorem exhaustion_branch_counterexample:
  "feed isValid_pos (ex_far 0 []) [[7], [], [], [], []] =
     Some [(XRV_TIMEOUTNODATA, ex_far 1 [7], []), (XRV_TIMEOUTNODATA, ex_far 2 [7], []),
           (XRV_TIMEOUTNODATA, ex_far 3 [7], []), (XRV_TIMEOUTNODATA, ex_far 4 [7], []),
           (XRV_TIMEOUTNODATA, ex_far 5 [7], [])] \<and>
   findMessage pm_far (drop (nat (sint (0 :: int32))) (m_buffer (ex_far 5 [7])))
     = (\<lparr>m_startPos = 2147483647, m_size = 1, m_incompletePos = 0\<rparr>, [7]) \<and>
   iteration isValid_pos pm_far (ex_far 5 [7]) 0 []
     = Continue (ex_far 0 [7]) (- 2147483648) [[7]] \<and>
   sint (- 2147483648 :: int32) = - 2147483648 \<and>
   processNewData isValid_pos (ex_far 5 [7]) [] [] = Some (Inl WindowOutOfRange)"
  by (simp add: far_defs)

text \<open>
  C4, amended. In such an iteration with the retry counter at the maximum, and the sum of
  line 147 an \<^verbatim>\<open>int\<close>, the message is accepted in the same iteration: the counter is
  reset to 0, the consumed offset advances by the start offset plus the size (so the skipped
  region with the incomplete message is dropped at the return), the message is appended to
  the container, and the loop goes on from there.
\<close>

theorem exhaustion_branch:
  assumes "0 \<le> sint popped" "sint popped \<le> int (length (m_buffer ex))"
    and "findMessage pm (drop (nat (sint popped)) (m_buffer ex)) = (location, message)"
    and "isValid location" "validateMessage pm message"
    and "0 < sint (m_startPos location)" "m_incompletePos location \<noteq> -1"
    and "sint (m_incompletePos location) < sint (m_startPos location)"
    and "sint m_maxIncompleteRetryCount \<le> sint (m_retryTimeout ex)"
    and "sint popped + (sint (m_startPos location) + sint (m_size location)) < 2 ^ 31"
  shows "iteration isValid pm ex popped messages =
           Continue (ex\<lparr>m_retryTimeout := 0\<rparr>)
             (popped + (m_startPos location + m_size location)) (messages @ [message]) \<and>
         sint (popped + (m_startPos location + m_size location)) =
           sint popped + (sint (m_startPos location) + sint (m_size location)) \<and>
         scan isValid pm ex popped messages =
           scan isValid pm (ex\<lparr>m_retryTimeout := 0\<rparr>)
             (popped + (m_startPos location + m_size location)) (messages @ [message])"
proof -
  from assms(9) have nd: "\<not> defers isValid pm ex popped" by (auto simp: defers_def)
  have "iteration isValid pm ex popped messages =
           Continue (ex\<lparr>m_retryTimeout := 0\<rparr>)
             (popped + (m_size location + m_startPos location)) (messages @ [message])"
    using assms nd by (intro iteration_accept) auto
  then have it: "iteration isValid pm ex popped messages =
           Continue (ex\<lparr>m_retryTimeout := 0\<rparr>)
             (popped + (m_startPos location + m_size location)) (messages @ [message])"
    by (simp add: add.commute)
  have lo: "- (2 ^ 31) \<le> sint (m_startPos location) + sint (m_size location)"
    using sint_ge [of "m_size location"] assms(6) by simp
  have hi: "sint (m_startPos location) + sint (m_size location) < 2 ^ 31"
    using assms(1,10) by simp
  from lo hi have s1: "sint (m_startPos location + m_size location) =
      sint (m_startPos location) + sint (m_size location)"
    by (rule sint_add_no_overflow)
  have "sint (popped + (m_startPos location + m_size location)) =
      sint popped + sint (m_startPos location + m_size location)"
    using assms(1,10) lo unfolding s1 [symmetric]
    by (intro sint_add_no_overflow) (simp_all add: s1)
  with s1 it show ?thesis by (simp add: scan_Continue)
qed

theorem exhaustion_branch_witness:
  "iteration isValid_pos pm_demo (ex_demo 5 [250, 3, 250, 0]) 0 [] =
     Continue (ex_demo 0 [250, 3, 250, 0]) 4 [[250, 0]] \<and>
   scan isValid_pos pm_demo (ex_demo 5 [250, 3, 250, 0]) 0 [] =
     scan isValid_pos pm_demo (ex_demo 0 [250, 3, 250, 0]) 4 [[250, 0]]"
  using exhaustion_branch [of 0 "ex_demo 5 [250, 3, 250, 0]" pm_demo
      "\<lparr>m_startPos = 2, m_size = 2, m_incompletePos = 0\<rparr>" "[250, 0]" isValid_pos "[]"]
  by (simp add: demo_defs)

text \<open>
  C5 (counter reset), as stated, fails: a call accepts a message, then defers on an
  incomplete message further on in the same buffer, and returns with the counter at 1.
\<close>

theorem counter_reset_counterexample:
  "processNewData isValid_pos (ex_demo 0 []) [250, 0, 9, 250, 3, 250, 0] []
     = Some (Inr (XRV_OK, ex_demo 1 [250, 3, 250, 0], [[250, 0]])) \<and>
   m_retryTimeout (ex_demo 1 [250, 3, 250, 0]) \<noteq> 0"
  by (simp add: eval_defs)

text \<open>
  C5, amended. The retry counter is 0 after every iteration that accepts a message. After a
  call that extracted a message it is 1 when the iteration that ended the call deferred, and
  0 when it did not.
\<close>

theorem counter_reset:
  "(iteration isValid pm e popped collected = Continue e1 popped1 collected1 \<longrightarrow>
      m_retryTimeout e1 = 0) \<and>
   (m_protocolManager ex = Some pm \<longrightarrow>
    processNewData isValid ex newData messages = Some (Inr (st, ex', out)) \<longrightarrow> out \<noteq> [] \<longrightarrow>
      (\<exists>e' q. last_iteration isValid pm (appended ex newData) 0 = Some (e', q) \<and>
         m_retryTimeout ex' = (if defers isValid pm e' q then 1 else 0)))"
proof (rule conjI)
  show "iteration isValid pm e popped collected = Continue e1 popped1 collected1 \<longrightarrow>
      m_retryTimeout e1 = 0"
    by (auto dest: iteration_ContinueD)
next
  show "m_protocolManager ex = Some pm \<longrightarrow>
    processNewData isValid ex newData messages = Some (Inr (st, ex', out)) \<longrightarrow> out \<noteq> [] \<longrightarrow>
      (\<exists>e' q. last_iteration isValid pm (appended ex newData) 0 = Some (e', q) \<and>
         m_retryTimeout ex' = (if defers isValid pm e' q then 1 else 0))"
  proof (intro impI)
    assume pm: "m_protocolManager ex = Some pm"
      and call: "processNewData isValid ex newData messages = Some (Inr (st, ex', out))"
      and out: "out \<noteq> []"
    from pm call have "scan isValid pm (appended ex newData) 0 [] = Some (Inr (st, ex', out))"
      by (simp add: processNewData_scan)
    from scan_last [OF this] out obtain e' q where
      "last_iteration isValid pm (appended ex newData) 0 = Some (e', q)"
      "m_retryTimeout ex' =
         (if defers isValid pm e' q then m_retryTimeout e' + 1 else m_retryTimeout e')"
      "m_retryTimeout e' = 0" by blast
    then show "\<exists>e' q. last_iteration isValid pm (appended ex newData) 0 = Some (e', q) \<and>
         m_retryTimeout ex' = (if defers isValid pm e' q then 1 else 0)"
      by auto
  qed
qed

theorem counter_reset_witness:
  "iteration isValid_pos pm_demo (ex_demo 3 [250, 0, 9, 250, 3, 250, 0]) 0 []
     = Continue (ex_demo 0 [250, 0, 9, 250, 3, 250, 0]) 2 [[250, 0]] \<and>
   processNewData isValid_pos (ex_demo 3 []) [250, 0, 9, 250, 3, 250, 0] []
     = Some (Inr (XRV_OK, ex_demo 1 [250, 3, 250, 0], [[250, 0]])) \<and>
   last_iteration isValid_pos pm_demo (appended (ex_demo 3 []) [250, 0, 9, 250, 3, 250, 0]) 0
     = Some (ex_demo 0 [250, 0, 9, 250, 3, 250, 0], 2) \<and>
   defers isValid_pos pm_demo (ex_demo 0 [250, 0, 9, 250, 3, 250, 0]) 2 \<and>
   processNewData isValid_pos
       \<lparr>m_protocolManager = Some pm_junk, m_retryTimeout = 3, m_buffer = [9, 9]\<rparr> [250, 0] []
     = Some (Inr (XRV_OK, \<lparr>m_protocolManager = Some pm_junk, m_retryTimeout = 0, m_buffer = []\<rparr>,
          [[250, 0]])) \<and>
   last_iteration isValid_pos pm_junk
       (appended \<lparr>m_protocolManager = Some pm_junk, m_retryTimeout = 3, m_buffer = [9, 9]\<rparr> [250, 0]) 0
     = Some (\<lparr>m_protocolManager = Some pm_junk, m_retryTimeout = 0, m_buffer = [9, 9, 250, 0]\<rparr>, 4) \<and>
   \<not> defers isValid_pos pm_junk
       \<lparr>m_protocolManager = Some pm_junk, m_retryTimeout = 0, m_buffer = [9, 9, 250, 0]\<rparr> 4"
proof -
  let ?c = "\<lparr>m_protocolManager = Some pm_junk, m_retryTimeout = 3, m_buffer = [9, 9]\<rparr>"
  let ?d = "\<lparr>m_protocolManager = Some pm_junk, m_retryTimeout = 0, m_buffer = []\<rparr>"
  let ?l = "\<lparr>m_protocolManager = Some pm_junk, m_retryTimeout = 0, m_buffer = [9, 9, 250, 0]\<rparr>"
  have it: "iteration isValid_pos pm_demo (ex_demo 3 [250, 0, 9, 250, 3, 250, 0]) 0 []
     = Continue (ex_demo 0 [250, 0, 9, 250, 3, 250, 0]) 2 [[250, 0]]"
    by (simp add: iteration_def accept_eq Let_def demo_defs)
  have pm1: "m_protocolManager (ex_demo 3 []) = Some pm_demo" by (simp add: ex_demo_def)
  have call1: "processNewData isValid_pos (ex_demo 3 []) [250, 0, 9, 250, 3, 250, 0] []
     = Some (Inr (XRV_OK, ex_demo 1 [250, 3, 250, 0], [[250, 0]]))"
    by (simp add: eval_defs)
  have l1: "last_iteration isValid_pos pm_demo
      (appended (ex_demo 3 []) [250, 0, 9, 250, 3, 250, 0]) 0
     = Some (ex_demo 0 [250, 0, 9, 250, 3, 250, 0], 2)"
    by (simp add: last_iteration.simps appended_def iteration_def accept_eq retval_eq Let_def
        demo_defs)
  have d1: "defers isValid_pos pm_demo (ex_demo 0 [250, 0, 9, 250, 3, 250, 0]) 2"
    by (simp add: defers_def demo_defs)
  have pm2: "m_protocolManager ?c = Some pm_junk" by simp
  have call2: "processNewData isValid_pos ?c [250, 0] [] = Some (Inr (XRV_OK, ?d, [[250, 0]]))"
    by (simp add: processNewData_def scan.simps iteration_def accept_eq retval_eq isValid_pos_def
        Let_def pm_junk_def)
  have l2: "last_iteration isValid_pos pm_junk (appended ?c [250, 0]) 0 = Some (?l, 4)"
    by (simp add: last_iteration.simps appended_def iteration_def accept_eq retval_eq Let_def
        isValid_pos_def pm_junk_def)
  have d2: "\<not> defers isValid_pos pm_junk ?l 4"
    by (simp add: defers_def isValid_pos_def pm_junk_def)
  from counter_reset [where isValid = isValid_pos and pm = pm_demo
      and e = "ex_demo 3 [250, 0, 9, 250, 3, 250, 0]" and popped = 0 and collected = "[]"
      and ?e1.0 = "ex_demo 0 [250, 0, 9, 250, 3, 250, 0]" and ?popped1.0 = 2
      and ?collected1.0 = "[[250, 0]]" and ex = "ex_demo 3 []"
      and newData = "[250, 0, 9, 250, 3, 250, 0]" and messages = "[]" and st = XRV_OK
      and ex' = "ex_demo 1 [250, 3, 250, 0]" and out = "[[250, 0]]"]
    counter_reset [where isValid = isValid_pos and pm = pm_junk and ex = ?c
      and newData = "[250, 0]" and messages = "[]" and st = XRV_OK and ex' = ?d
      and out = "[[250, 0]]"]
    it pm1 call1 l1 d1 pm2 call2 l2 d2
  show ?thesis by simp
qed

text \<open>
  C6 (termination), as stated, fails. The protocol manager reports, on the empty window
  behind the message [250, 0], a validated message whose start offset and size add up,
  at line 147, to -2: the iteration at the consumed offset 2 goes on at the consumed offset 0,
  where the same message [250, 0] is found again, and the call never returns.
\<close>

theorem processNewData_terminates_counterexample:
  "processNewData isValid_pos
     \<lparr>m_protocolManager = Some pm_wrap, m_retryTimeout = 0, m_buffer = []\<rparr> [250, 0] [] = None \<and>
   iteration isValid_pos pm_wrap
     \<lparr>m_protocolManager = Some pm_wrap, m_retryTimeout = 0, m_buffer = [250, 0]\<rparr> 2 [[250, 0]]
     = Continue \<lparr>m_protocolManager = Some pm_wrap, m_retryTimeout = 0, m_buffer = [250, 0]\<rparr> 0
         [[250, 0], [250]]"
proof
  have "scan isValid_pos pm_wrap
     \<lparr>m_protocolManager = Some pm_wrap, m_retryTimeout = 0, m_buffer = [250, 0]\<rparr> 0 [] = None"
  proof (rule ccontr)
    assume "scan isValid_pos pm_wrap
       \<lparr>m_protocolManager = Some pm_wrap, m_retryTimeout = 0, m_buffer = [250, 0]\<rparr> 0 [] \<noteq> None"
    then obtain r where "scan isValid_pos pm_wrap
       \<lparr>m_protocolManager = Some pm_wrap, m_retryTimeout = 0, m_buffer = [250, 0]\<rparr> 0 [] = Some r"
      by auto
    from scan_pm_wrap [OF this] show False by simp
  qed
  then show "processNewData isValid_pos
     \<lparr>m_protocolManager = Some pm_wrap, m_retryTimeout = 0, m_buffer = []\<rparr> [250, 0] [] = None"
    by (simp add: processNewData_def)
  show "iteration isValid_pos pm_wrap
     \<lparr>m_protocolManager = Some pm_wrap, m_retryTimeout = 0, m_buffer = [250, 0]\<rparr> 2 [[250, 0]]
     = Continue \<lparr>m_protocolManager = Some pm_wrap, m_retryTimeout = 0, m_buffer = [250, 0]\<rparr> 0
         [[250, 0], [250]]"
    by (simp add: iteration_def accept_eq isValid_pos_def pm_wrap_def)
qed

text \<open>
  C6, amended. With a location valid when a start was found and the size is positive:
  when at no offset of the buffer the protocol manager reports a validated message whose
  start offset and size, added to that offset at line 147, leave the range of an
  \<^verbatim>\<open>int\<close>, every call ends (in a status, at the assertion of line 99, or at a window
  outside the buffer), and each iteration that does not end the call strictly advances the
  consumed offset.
\<close>

theorem processNewData_terminates:
  assumes "m_protocolManager ex = Some pm"
    and "\<forall>(popped::int32) location message. 0 \<le> sint popped \<longrightarrow>
      sint popped \<le> int (length (m_buffer ex @ newData)) \<longrightarrow>
      findMessage pm (drop (nat (sint popped)) (m_buffer ex @ newData)) = (location, message) \<longrightarrow>
      isValid_pos location \<longrightarrow> validateMessage pm message \<longrightarrow>
        sint popped + (sint (m_size location) + sint (m_startPos location)) < 2 ^ 31"
  shows "(\<exists>r. processNewData isValid_pos ex newData messages = Some r) \<and>
         (m_buffer e = m_buffer ex @ newData \<longrightarrow>
          iteration isValid_pos pm e at collected = Continue e1 at1 collected1 \<longrightarrow>
            sint at < sint at1)"
proof (intro conjI impI)
  have "\<exists>r. scan isValid_pos pm (appended ex newData) 0 [] = Some r"
    by (rule scan_ends [OF assms(2)]) simp
  with assms(1) show "\<exists>r. processNewData isValid_pos ex newData messages = Some r"
    by (simp add: processNewData_scan)
next
  assume b: "m_buffer e = m_buffer ex @ newData"
    and it: "iteration isValid_pos pm e at collected = Continue e1 at1 collected1"
  from iteration_ContinueD [OF it] have r: "0 \<le> sint at" "sint at \<le> int (length (m_buffer e))"
    by auto
  show "sint at < sint at1"
  proof (rule iteration_advances [OF it], intro allI impI)
    fix loc msg
    assume "findMessage pm (drop (nat (sint at)) (m_buffer e)) = (loc, msg)"
      "isValid_pos loc" "validateMessage pm msg"
    with r b assms(2) show "sint at + (sint (m_size loc) + sint (m_startPos loc)) < 2 ^ 31"
      by (auto dest!: spec [of _ at])
  qed
qed

theorem processNewData_terminates_witness:
  "(\<exists>r. processNewData isValid_pos (ex_demo 0 [250]) [0, 9, 250, 3, 250, 0] [] = Some r) \<and>
   iteration isValid_pos pm_demo (ex_demo 0 [250, 0, 9, 250, 3, 250, 0]) 0 []
     = Continue (ex_demo 0 [250, 0, 9, 250, 3, 250, 0]) 2 [[250, 0]] \<and>
   sint (0 :: int32) < sint (2 :: int32)"
proof -
  have pm: "m_protocolManager (ex_demo 0 [250]) = Some pm_demo" by (simp add: ex_demo_def)
  have fits: "\<forall>(popped::int32) location message. 0 \<le> sint popped \<longrightarrow>
      sint popped \<le> int (length (m_buffer (ex_demo 0 [250]) @ [0, 9, 250, 3, 250, 0])) \<longrightarrow>
      findMessage pm_demo (drop (nat (sint popped)) (m_buffer (ex_demo 0 [250]) @ [0, 9, 250, 3, 250, 0]))
        = (location, message) \<longrightarrow>
      isValid_pos location \<longrightarrow> validateMessage pm_demo message \<longrightarrow>
        sint popped + (sint (m_size location) + sint (m_startPos location)) < 2 ^ 31"
    by (auto simp: pm_demo_def isValid_pos_def ex_demo_def split: if_splits)
  have it: "iteration isValid_pos pm_demo (ex_demo 0 [250, 0, 9, 250, 3, 250, 0]) 0 []
     = Continue (ex_demo 0 [250, 0, 9, 250, 3, 250, 0]) 2 [[250, 0]]"
    by (simp add: iteration_def accept_eq Let_def demo_defs)
  have b: "m_buffer (ex_demo 0 [250, 0, 9, 250, 3, 250, 0])
      = m_buffer (ex_demo 0 [250]) @ [0, 9, 250, 3, 250, 0]" by (simp add: ex_demo_def)
  from processNewData_terminates [OF pm fits, where messages = "[]"
      and e = "ex_demo 0 [250, 0, 9, 250, 3, 250, 0]" and at = 0 and collected = "[]"
      and ?e1.0 = "ex_demo 0 [250, 0, 9, 250, 3, 250, 0]" and ?at1.0 = 2
      and ?collected1.0 = "[[250, 0]]"] it b
  show ?thesis by simp
qed




text \<open>
  C8 (output list). The claim fails on the path without a protocol manager: the call returns
  before \<^verbatim>\<open>messages.clear()\<close>, and the container keeps what the caller left in it,
  although the comment of the function says that it is cleared upon entry.
\<close>

theorem error_path_keeps_messages:
  "processNewData isValid_pos \<lparr>m_protocolManager = None, m_retryTimeout = 0, m_buffer = []\<rparr> []
     [[250, 0]]
   = Some (Inr (XRV_ERROR, \<lparr>m_protocolManager = None, m_retryTimeout = 0, m_buffer = []\<rparr>,
        [[250, 0]]))"
  by (simp add: processNewData_def)

text \<open>
  C9 (assertion validity). When the location that the protocol manager reports satisfies
  the contract (an incomplete offset and a start offset that are both defined have the
  incomplete offset below the start offset), the iteration does not end in the failure of
  the assertion of line 99.
\<close>

theorem assertion_validity:
  assumes "findMessage pm (drop (nat (sint popped)) (m_buffer ex)) = (location, message)"
    and "m_startPos location \<noteq> -1 \<and> m_incompletePos location \<noteq> -1 \<longrightarrow>
           sint (m_incompletePos location) < sint (m_startPos location)"
  shows "iteration isValid pm ex popped messages \<noteq> Return (Inl AssertionFailed)"
  using assms by (auto simp: iteration_def accept_eq Let_def)

theorem assertion_validity_witness:
  "findMessage pm_demo (drop (nat (sint (0 :: int32))) (m_buffer (ex_demo 0 [9, 250, 3, 250, 0])))
     = (\<lparr>m_startPos = 3, m_size = 2, m_incompletePos = 1\<rparr>, [250, 0]) \<and>
   iteration isValid_pos pm_demo (ex_demo 0 [9, 250, 3, 250, 0]) 0 [] \<noteq> Return (Inl AssertionFailed)"
  using assertion_validity [of pm_demo 0 "ex_demo 0 [9, 250, 3, 250, 0]"
      "\<lparr>m_startPos = 3, m_size = 2, m_incompletePos = 1\<rparr>" "[250, 0]" isValid_pos "[]"]
  by (simp add: demo_defs)

text \<open>
  C10 (buffer suffix). With a protocol manager bound, the buffer after a call that returns
  a status is the buffer before the call followed by the new data, without a prefix.
\<close>

theorem buffer_suffix:
  assumes "m_protocolManager ex = Some pm"
    and "processNewData isValid ex newData messages = Some (Inr (st, ex', out))"
  shows "\<exists>n. m_buffer ex' = drop n (m_buffer ex @ newData)"
proof -
  from assms have "scan isValid pm (appended ex newData) 0 [] = Some (Inr (st, ex', out))"
    by (simp add: processNewData_scan)
  from scan_last [OF this] show ?thesis by auto
qed

theorem buffer_suffix_witness:
  "processNewData isValid_pos (ex_demo 0 [250, 0, 9]) [250, 3, 250, 0] []
     = Some (Inr (XRV_OK, ex_demo 1 [250, 3, 250, 0], [[250, 0]])) \<and>
   (\<exists>n. m_buffer (ex_demo 1 [250, 3, 250, 0]) = drop n (m_buffer (ex_demo 0 [250, 0, 9]) @ [250, 3, 250, 0]))"
proof -
  have call: "processNewData isValid_pos (ex_demo 0 [250, 0, 9]) [250, 3, 250, 0] []
     = Some (Inr (XRV_OK, ex_demo 1 [250, 3, 250, 0], [[250, 0]]))"
    by (simp add: eval_defs)
  have "m_protocolManager (ex_demo 0 [250, 0, 9]) = Some pm_demo" by (simp add: ex_demo_def)
  from buffer_suffix [OF this call] call show ?thesis by simp
qed

end
